theory Spec2Isabelle
  imports Main "HOL-Library.AList" "HOL-Library.Multiset"
begin

section \<open>Values of the host language\<close>

text \<open>
  A \<^verbatim>\<open>number\<close> as it reaches \<^verbatim>\<open>maxAttendees\<close>: the literals of
  \<^verbatim>\<open>initialEvents\<close> and the results of \<^verbatim>\<open>Number.parseInt\<close>, that is an integer
  or \<^verbatim>\<open>NaN\<close>. The integer is kept exact; the comparisons below (against zero and
  against an array length) do not depend on the rounding of a double, nor on a digit
  string too long for a double reading as \<^verbatim>\<open>Infinity\<close>.
\<close>

datatype number = NaN | Num int

text \<open>\<^verbatim>\<open>ToBoolean\<close> on a number: \<^verbatim>\<open>0\<close> and \<^verbatim>\<open>NaN\<close> are falsy.\<close>

fun toBoolean :: "number \<Rightarrow> bool" where
  "toBoolean NaN = False"
| "toBoolean (Num n) = (n \<noteq> 0)"

text \<open>\<^verbatim>\<open>k >= n\<close> for an array length \<open>k\<close>; every comparison with \<^verbatim>\<open>NaN\<close> is false.\<close>

fun length_ge :: "nat \<Rightarrow> number \<Rightarrow> bool" where
  "length_ge k NaN = False"
| "length_ge k (Num n) = (n \<le> int k)"

text \<open>\<^verbatim>\<open>n <= 0\<close>.\<close>

fun le_zero :: "number \<Rightarrow> bool" where
  "le_zero NaN = False"
| "le_zero (Num n) = (n \<le> 0)"

section \<open>Dates\<close>

text \<open>
  A valid \<^verbatim>\<open>Date\<close>, seen through the local-time fields that the date-fns functions
  read and set (\<^verbatim>\<open>getFullYear\<close>, \<^verbatim>\<open>getMonth\<close> counted from 0, \<^verbatim>\<open>getDate\<close>, and the
  milliseconds since local midnight). The zone's offset is taken as constant, so the
  order of time values is the order of local times, and the years are unbounded (a
  \<^verbatim>\<open>Date\<close> of the language ends 100 million days either side of 1970).
  \<^verbatim>\<open>Invalid Date\<close> only arises from parsing and is the \<open>None\<close> of an option.
\<close>

record Date =
  year :: int
  month :: nat
  dayOfMonth :: nat
  msOfDay :: nat

definition msPerDay :: int where
  "msPerDay = 86400000"

definition isLeapYear :: "int \<Rightarrow> bool" where
  "isLeapYear y = (y mod 4 = 0 \<and> (y mod 100 \<noteq> 0 \<or> y mod 400 = 0))"

definition daysInMonth :: "int \<Rightarrow> nat \<Rightarrow> nat" where
  "daysInMonth y m =
     (if m = 1 then (if isLeapYear y then 29 else 28)
      else if m = 3 \<or> m = 5 \<or> m = 8 \<or> m = 10 then 30 else 31)"

definition daysBeforeMonth :: "int \<Rightarrow> nat \<Rightarrow> nat" where
  "daysBeforeMonth y m = sum_list (map (daysInMonth y) [0..<m])"

text \<open>The day number of 1 January of year \<open>y\<close>, counted from 1 January 1970.\<close>

definition dayFromYear :: "int \<Rightarrow> int" where
  "dayFromYear y = 365 * (y - 1970) + (y - 1969) div 4 - (y - 1901) div 100 + (y - 1601) div 400"

definition dayNumber :: "Date \<Rightarrow> int" where
  "dayNumber d = dayFromYear (year d) + int (daysBeforeMonth (year d) (month d)) + int (dayOfMonth d) - 1"

text \<open>\<^verbatim>\<open>getTime\<close>: the time value in milliseconds, on the local time line.\<close>

definition getTime :: "Date \<Rightarrow> int" where
  "getTime d = dayNumber d * msPerDay + int (msOfDay d)"

text \<open>\<^verbatim>\<open>getDay\<close>: the weekday, 0 for Sunday; 1 January 1970 was a Thursday.\<close>

definition getDay :: "Date \<Rightarrow> nat" where
  "getDay d = nat ((dayNumber d + 4) mod 7)"

definition validDate :: "Date \<Rightarrow> bool" where
  "validDate d = (month d < 12 \<and> 1 \<le> dayOfMonth d \<and> dayOfMonth d \<le> daysInMonth (year d) (month d)
     \<and> int (msOfDay d) < msPerDay)"

text \<open>
  \<^verbatim>\<open>setDate(getDate() + 1)\<close> and \<^verbatim>\<open>setDate(getDate() - 1)\<close>: a day past the end of the
  month or before its first day carries into the neighbouring month and year.
\<close>

definition nextDay :: "Date \<Rightarrow> Date" where
  "nextDay d =
     (if dayOfMonth d \<noteq> daysInMonth (year d) (month d) then d\<lparr>dayOfMonth := dayOfMonth d + 1\<rparr>
      else if month d \<noteq> 11 then d\<lparr>month := month d + 1, dayOfMonth := 1\<rparr>
      else d\<lparr>year := year d + 1, month := 0, dayOfMonth := 1\<rparr>)"

definition prevDay :: "Date \<Rightarrow> Date" where
  "prevDay d =
     (if dayOfMonth d \<noteq> 1 then d\<lparr>dayOfMonth := dayOfMonth d - 1\<rparr>
      else if month d \<noteq> 0 then
        d\<lparr>month := month d - 1, dayOfMonth := daysInMonth (year d) (month d - 1)\<rparr>
      else d\<lparr>year := year d - 1, month := 11, dayOfMonth := 31\<rparr>)"

text \<open>date-fns \<^verbatim>\<open>addDays\<close>: \<^verbatim>\<open>setDate(getDate() + amount)\<close>, the time of day kept.\<close>

definition addDays :: "Date \<Rightarrow> int \<Rightarrow> Date" where
  "addDays d amount =
     (if 0 \<le> amount then (nextDay ^^ nat amount) d else (prevDay ^^ nat (- amount)) d)"

text \<open>\<^verbatim>\<open>new Date(value)\<close> for a time value: the local fields of that instant.\<close>

definition newDate :: "int \<Rightarrow> Date" where
  "newDate t =
     (addDays \<lparr>year = 1970, month = 0, dayOfMonth = 1, msOfDay = 0\<rparr> (t div msPerDay))
       \<lparr>msOfDay := nat (t mod msPerDay)\<rparr>"

text \<open>
  date-fns, with the default options (the week starts on Sunday):
  \<^verbatim>\<open>startOfDay\<close> is \<^verbatim>\<open>setHours(0, 0, 0, 0)\<close>;
  \<^verbatim>\<open>startOfMonth\<close> is \<^verbatim>\<open>setDate(1)\<close> then \<^verbatim>\<open>setHours(0, 0, 0, 0)\<close>;
  \<^verbatim>\<open>endOfMonth\<close> is \<^verbatim>\<open>setFullYear(year, month + 1, 0)\<close> then \<^verbatim>\<open>setHours(23, 59, 59, 999)\<close>;
  \<^verbatim>\<open>startOfWeek\<close> goes back \<^verbatim>\<open>getDay()\<close> days, to midnight;
  \<^verbatim>\<open>endOfWeek\<close> goes forward \<^verbatim>\<open>6 - getDay()\<close> days, to the last millisecond;
  \<^verbatim>\<open>isSameDay\<close> compares the two \<^verbatim>\<open>startOfDay\<close>; \<^verbatim>\<open>isBefore\<close> compares time values.
\<close>

definition startOfDay :: "Date \<Rightarrow> Date" where
  "startOfDay d = d\<lparr>msOfDay := 0\<rparr>"

definition startOfMonth :: "Date \<Rightarrow> Date" where
  "startOfMonth d = d\<lparr>dayOfMonth := 1, msOfDay := 0\<rparr>"

definition endOfMonth :: "Date \<Rightarrow> Date" where
  "endOfMonth d = d\<lparr>dayOfMonth := daysInMonth (year d) (month d), msOfDay := 86399999\<rparr>"

definition startOfWeek :: "Date \<Rightarrow> Date" where
  "startOfWeek d = (addDays d (- int (getDay d)))\<lparr>msOfDay := 0\<rparr>"

definition endOfWeek :: "Date \<Rightarrow> Date" where
  "endOfWeek d = (addDays d (6 - int (getDay d)))\<lparr>msOfDay := 86399999\<rparr>"

definition isSameDay :: "Date \<Rightarrow> Date \<Rightarrow> bool" where
  "isSameDay dateLeft dateRight = (getTime (startOfDay dateLeft) = getTime (startOfDay dateRight))"

definition isBefore :: "Date \<Rightarrow> Date \<Rightarrow> bool" where
  "isBefore d dateToCompare = (getTime d < getTime dateToCompare)"

lemma daysBeforeMonth_Suc:
  "daysBeforeMonth y (Suc m) = daysBeforeMonth y m + daysInMonth y m"
  by (simp add: daysBeforeMonth_def)

lemma daysBeforeMonth_0: "daysBeforeMonth y 0 = 0"
  by (simp add: daysBeforeMonth_def)

lemma daysBeforeMonth_12:
  "daysBeforeMonth y 12 = (if isLeapYear y then 366 else 365)"
proof -
  have "[0..<12] = [0, 1, 2, 3, 4, 5, 6, 7, 8, 9, 10, 11::nat]"
    by (simp add: upt_rec)
  then show ?thesis
    by (simp add: daysBeforeMonth_def daysInMonth_def)
qed


lemma div_step:
  fixes z k :: int
  assumes "0 < k"
  shows "(z + 1) div k = z div k + (if k dvd (z + 1) then 1 else 0)"
proof (cases "k dvd (z + 1)")
  case True
  then obtain q where q: "z + 1 = k * q" by (auto simp: dvd_def)
  then have "z = (k - 1) + k * (q - 1)" by (simp add: algebra_simps)
  then have "z div k = (q - 1) + (k - 1) div k"
    using assms by (metis div_mult_self2 less_irrefl)
  moreover have "(k - 1) div k = 0"
    using assms by (simp add: div_pos_pos_trivial)
  ultimately show ?thesis using True q assms by simp
next
  case False
  define r where "r = z mod k"
  have r: "0 \<le> r" "r < k" using assms by (simp_all add: r_def)
  have z: "z = r + k * (z div k)" by (simp add: r_def)
  have "r + 1 \<noteq> k"
  proof
    assume "r + 1 = k"
    then have "z + 1 = k * (z div k + 1)" using z by (simp add: algebra_simps)
    then have "k dvd (z + 1)" by (metis dvd_triv_left)
    with False show False by simp
  qed
  with r have r1: "0 \<le> r + 1" "r + 1 < k" by simp_all
  have "z + 1 = (r + 1) + k * (z div k)" using z by simp
  then have "(z + 1) div k = z div k + (r + 1) div k"
    using assms by (metis div_mult_self2 less_irrefl)
  moreover have "(r + 1) div k = 0" using r1 by (simp add: div_pos_pos_trivial)
  ultimately show ?thesis using False by simp
qed

lemma dvd_shift: "k dvd c \<Longrightarrow> (k dvd (y - c)) = (k dvd y)" for k :: int
  by (simp add: dvd_diff_left_iff)

lemma dayFromYear_Suc:
  "dayFromYear (y + 1) = dayFromYear y + (if isLeapYear y then 366 else 365)"
proof -
  have a: "(y - 1968) div 4 = (y - 1969) div 4 + (if 4 dvd y then 1 else 0)"
    using div_step [of 4 "y - 1969"] dvd_shift [of 4 1968 y] by (simp add: algebra_simps)
  have b: "(y - 1900) div 100 = (y - 1901) div 100 + (if 100 dvd y then 1 else 0)"
    using div_step [of 100 "y - 1901"] dvd_shift [of 100 1900 y] by (simp add: algebra_simps)
  have c: "(y - 1600) div 400 = (y - 1601) div 400 + (if 400 dvd y then 1 else 0)"
    using div_step [of 400 "y - 1601"] dvd_shift [of 400 1600 y] by (simp add: algebra_simps)
  have d: "400 dvd y \<Longrightarrow> 100 dvd y" "100 dvd y \<Longrightarrow> 4 dvd y"
  proof -
    have "(100::int) dvd 400" "(4::int) dvd 100" by simp_all
    then show "400 dvd y \<Longrightarrow> 100 dvd y" "100 dvd y \<Longrightarrow> 4 dvd y"
      using dvd_trans by blast+
  qed
  have leap: "isLeapYear y = (4 dvd y \<and> (\<not> 100 dvd y \<or> 400 dvd y))"
    by (simp add: isLeapYear_def dvd_eq_mod_eq_0)
  show ?thesis
  proof (cases "4 dvd y")
    case False
    with d have "\<not> 100 dvd y" "\<not> 400 dvd y" by blast+
    with False show ?thesis
      by (simp add: dayFromYear_def leap a b c)
  next
    case four: True
    show ?thesis
    proof (cases "100 dvd y")
      case False
      with d have "\<not> 400 dvd y" by blast
      with four False show ?thesis
        by (simp add: dayFromYear_def leap a b c)
    next
      case True
      with four show ?thesis
        by (simp add: dayFromYear_def leap a b c)
    qed
  qed
qed


lemma dayNumber_nextDay: "dayNumber (nextDay d) = dayNumber d + 1"
proof -
  have "daysBeforeMonth (year d) 12 = daysBeforeMonth (year d) 11 + 31"
    using daysBeforeMonth_Suc [of "year d" 11] by (simp add: daysInMonth_def)
  then have last: "dayFromYear (year d + 1) =
      dayFromYear (year d) + int (daysBeforeMonth (year d) 11) + 31"
    by (cases "isLeapYear (year d)") (simp_all add: dayFromYear_Suc daysBeforeMonth_12)
  show ?thesis
  proof (cases "dayOfMonth d \<noteq> daysInMonth (year d) (month d)")
    case True
    then show ?thesis
      by (simp add: nextDay_def dayNumber_def)
  next
    case eom: False
    show ?thesis
    proof (cases "month d \<noteq> 11")
      case True
      with eom show ?thesis
        by (simp add: nextDay_def dayNumber_def daysBeforeMonth_Suc)
    next
      case False
      then have "daysInMonth (year d) (month d) = 31"
        by (simp add: daysInMonth_def)
      with eom False last show ?thesis
        by (simp add: nextDay_def dayNumber_def daysBeforeMonth_0)
    qed
  qed
qed

lemma msOfDay_nextDay: "msOfDay (nextDay d) = msOfDay d"
  by (simp add: nextDay_def)

lemma getTime_nextDay: "getTime (nextDay d) = getTime d + msPerDay"
  by (simp add: getTime_def dayNumber_nextDay msOfDay_nextDay algebra_simps)

lemma getTime_funpow_nextDay: "getTime ((nextDay ^^ k) d) = getTime d + int k * msPerDay"
  by (induction k) (simp_all add: getTime_nextDay algebra_simps)


section \<open>The calendar grid\<close>

text \<open>
  The inner \<^verbatim>\<open>for\<close> loop of \<^verbatim>\<open>calendarDays\<close>: from index \<open>i\<close>, push \<open>day\<close> and step
  to the next day until the index reaches seven. It returns the row and the day reached.
\<close>

function weekLoop :: "nat \<Rightarrow> Date \<Rightarrow> Date list \<Rightarrow> Date list \<times> Date" where
  "weekLoop i day days =
     (if i < 7 then weekLoop (i + 1) (addDays day 1) (days @ [day]) else (days, day))"
  by pat_completeness auto
termination
  by (relation "measure (\<lambda>(i, day, days). 7 - i)") auto

declare weekLoop.simps [simp del]

lemma addDays_1: "addDays d 1 = nextDay d"
  by (simp add: addDays_def)

lemma weekLoop_result:
  "weekLoop i day days =
     (days @ map (\<lambda>k. (nextDay ^^ k) day) [0..<7 - i], (nextDay ^^ (7 - i)) day)"
proof (induction i day days rule: weekLoop.induct)
  case (1 i day days)
  show ?case
  proof (cases "i < 7")
    case True
    then have step: "7 - i = Suc (7 - (i + 1))"
      by simp
    have cells: "map (\<lambda>k. (nextDay ^^ k) day) [0..<Suc n] =
        day # map (\<lambda>k. (nextDay ^^ k) (nextDay day)) [0..<n]" for n
      by (simp add: upt_conv_Cons map_Suc_upt [symmetric] funpow_swap1 del: upt_Suc)
    have "weekLoop i day days = weekLoop (i + 1) (nextDay day) (days @ [day])"
      using True by (subst weekLoop.simps) (simp add: addDays_1)
    also have "\<dots> = ((days @ [day]) @ map (\<lambda>k. (nextDay ^^ k) (nextDay day)) [0..<7 - (i + 1)],
        (nextDay ^^ (7 - (i + 1))) (nextDay day))"
      using "1.IH" True by (simp only: addDays_1)
    also have "\<dots> = (days @ map (\<lambda>k. (nextDay ^^ k) day) [0..<7 - i], (nextDay ^^ (7 - i)) day)"
      unfolding step cells by (simp add: funpow_swap1)
    finally show ?thesis .
  next
    case False
    then show ?thesis
      by (subst weekLoop.simps) simp
  qed
qed

text \<open>The \<^verbatim>\<open>while (day <= endDate)\<close> loop: one row of seven days per round.\<close>

function monthLoop :: "Date \<Rightarrow> Date \<Rightarrow> Date list list \<Rightarrow> Date list list" where
  "monthLoop day endDate rows =
     (if getTime day \<le> getTime endDate then
        (case weekLoop 0 day [] of (days, day') \<Rightarrow> monthLoop day' endDate (rows @ [days]))
      else rows)"
  by pat_completeness auto
termination
proof (relation "measure (\<lambda>(day, endDate, rows). nat (getTime endDate - getTime day + 1))")
  show "wf (measure (\<lambda>(day, endDate, rows). nat (getTime endDate - getTime day + 1)))"
    by simp
next
  fix day endDate :: Date and rows :: "Date list list" and days day'
  assume le: "getTime day \<le> getTime endDate" and pair: "(days, day') = weekLoop 0 day []"
  have "day' = (nextDay ^^ 7) day"
    using pair by (simp add: weekLoop_result)
  then have "getTime day' = getTime day + 7 * msPerDay"
    by (simp only: getTime_funpow_nextDay of_nat_numeral)
  with le show "((day', endDate, rows @ [days]), (day, endDate, rows))
      \<in> measure (\<lambda>(day, endDate, rows). nat (getTime endDate - getTime day + 1))"
    by (simp add: msPerDay_def)
qed

declare monthLoop.simps [simp del]

definition calendarDays :: "Date \<Rightarrow> Date list list" where
  "calendarDays currentMonth =
     (let monthStart = startOfMonth currentMonth;
          monthEnd = endOfMonth monthStart;
          startDate = startOfWeek monthStart;
          endDate = endOfWeek monthEnd
      in monthLoop startDate endDate [])"

section \<open>Data model\<close>

record Attendee =
  attendee_id :: string
  attendee_name :: string
  avatarColor :: "string option"

text \<open>
  \<^verbatim>\<open>Omit<Event, "id" | "attendees" | "createdBy">\<close> is the record \<open>EventData\<close>;
  \<^verbatim>\<open>Event\<close> extends it. An absent \<^verbatim>\<open>maxAttendees\<close> is \<open>None\<close>.
\<close>

record EventData =
  title :: string
  date :: string
  description :: string
  location :: string
  maxAttendees :: "number option"

record Event = EventData +
  event_id :: string
  attendees :: "Attendee list"
  createdBy :: Attendee

datatype toast_type = Success | Error

type_synonym Toast = "string \<times> toast_type"

text \<open>
  The state of \<^verbatim>\<open>GroupEventPlanner\<close> that the handlers write. \<open>toasts\<close> is the
  sequence of \<^verbatim>\<open>showToast\<close> calls made so far, a null \<^verbatim>\<open>selectedDate\<close> is \<open>None\<close>.
\<close>

record AppState =
  events :: "Event list"
  selectedDate :: "Date option"
  isAddEventModalOpen :: bool
  toasts :: "Toast list"

section \<open>RSVP\<close>

definition quoted :: "string \<Rightarrow> string" where
  "quoted s = CHR 0x22 # s @ [CHR 0x22]"

text \<open>
  The callback that \<^verbatim>\<open>handleRsvp\<close> maps over \<^verbatim>\<open>prevEvents\<close>, for the current user
  \<open>user\<close> (\<^verbatim>\<open>mockUser\<close> in the module): the new event and the toasts shown for it.
\<close>

definition rsvpEvent :: "Attendee \<Rightarrow> string \<Rightarrow> Event \<Rightarrow> Event \<times> Toast list" where
  "rsvpEvent user eventId event =
     (if event_id event = eventId then
        (let isAttending = (\<exists>a \<in> set (attendees event). attendee_id a = attendee_id user) in
         if isAttending then
           (event\<lparr>attendees := filter (\<lambda>a. attendee_id a \<noteq> attendee_id user) (attendees event)\<rparr>,
            [(''Your RSVP for '' @ quoted (title event) @ '' has been canceled.'', Success)])
         else if (case maxAttendees event of None \<Rightarrow> False
                  | Some m \<Rightarrow> toBoolean m \<and> length_ge (length (attendees event)) m) then
           (event, [(''Sorry, '' @ quoted (title event) @ '' is full.'', Error)])
         else
           (event\<lparr>attendees := attendees event @ [user]\<rparr>,
            [(''You've successfully RSVP'd to '' @ quoted (title event) @ ''!'', Success)]))
      else (event, []))"

definition handleRsvp :: "Attendee \<Rightarrow> string \<Rightarrow> AppState \<Rightarrow> AppState" where
  "handleRsvp user eventId st =
     (let rs = map (rsvpEvent user eventId) (events st) in
      st\<lparr>events := map fst rs, toasts := toasts st @ concat (map snd rs)\<rparr>)"

section \<open>Day views\<close>

text \<open>
  \<^verbatim>\<open>parseISO\<close> is a parameter: it maps the stored string to a date, \<open>None\<close> for
  \<^verbatim>\<open>Invalid Date\<close>, so \<^verbatim>\<open>isValid(parseISO(s))\<close> is \<open>parseISO s \<noteq> None\<close>.
\<close>

text \<open>The key of the comparator: \<^verbatim>\<open>parseISO(event.date).getTime()\<close>.\<close>

definition eventTime :: "(string \<Rightarrow> Date option) \<Rightarrow> Event \<Rightarrow> int" where
  "eventTime parseISO event = (case parseISO (date event) of None \<Rightarrow> 0 | Some d \<Rightarrow> getTime d)"

definition onDay :: "(string \<Rightarrow> Date option) \<Rightarrow> Date \<Rightarrow> Event \<Rightarrow> bool" where
  "onDay parseISO day event =
     (case parseISO (date event) of None \<Rightarrow> False | Some d \<Rightarrow> isSameDay d day)"

text \<open>
  \<^verbatim>\<open>eventsOnSelectedDate\<close>: nothing without a selected date; otherwise the events with a
  valid date on the selected day, sorted by the difference of their time values.
  \<^verbatim>\<open>Array.prototype.sort\<close> is stable, and every date that reaches the comparator is
  valid, so the result is the stable sort by time value.
\<close>

definition eventsOnSelectedDate ::
  "(string \<Rightarrow> Date option) \<Rightarrow> Date option \<Rightarrow> Event list \<Rightarrow> Event list" where
  "eventsOnSelectedDate parseISO selected evs =
     (case selected of
        None \<Rightarrow> []
      | Some day \<Rightarrow> sort_key (eventTime parseISO) (filter (onDay parseISO day) evs))"

text \<open>
  \<^verbatim>\<open>eventsByDate\<close>: a \<^verbatim>\<open>Map\<close> keeps its keys in insertion order, so it is an
  association list; \<^verbatim>\<open>map.set\<close> replaces the value of a present key in place and
  appends an absent one. \<open>format\<close> is the date-fns function, a parameter.
\<close>

definition indexEvent ::
  "(string \<Rightarrow> Date option) \<Rightarrow> (Date \<Rightarrow> string \<Rightarrow> string) \<Rightarrow>
   (string \<times> Event list) list \<Rightarrow> Event \<Rightarrow> (string \<times> Event list) list" where
  "indexEvent parseISO format m event =
     (case parseISO (date event) of
        None \<Rightarrow> m
      | Some d \<Rightarrow>
          (let dateKey = format d ''yyyy-MM-dd'';
               existing = (case map_of m dateKey of None \<Rightarrow> [] | Some g \<Rightarrow> g)
           in AList.update dateKey (existing @ [event]) m))"

definition eventsByDate ::
  "(string \<Rightarrow> Date option) \<Rightarrow> (Date \<Rightarrow> string \<Rightarrow> string) \<Rightarrow> Event list \<Rightarrow>
   (string \<times> Event list) list" where
  "eventsByDate parseISO format evs = foldl (indexEvent parseISO format) [] evs"

section \<open>Creating an event\<close>


text \<open>
  Strings are lists of 8-bit characters; the white space of \<^verbatim>\<open>trim\<close> and
  \<^verbatim>\<open>parseInt\<close> in that range is TAB, LF, VT, FF, CR, SP and NBSP.
\<close>

definition isWhiteSpace :: "char \<Rightarrow> bool" where
  "isWhiteSpace c = (c = CHR 0x09 \<or> c = CHR 0x0A \<or> c = CHR 0x0B \<or> c = CHR 0x0C \<or>
     c = CHR 0x0D \<or> c = CHR 0x20 \<or> c = CHR 0xA0)"

definition trim :: "string \<Rightarrow> string" where
  "trim s = rev (dropWhile isWhiteSpace (rev (dropWhile isWhiteSpace s)))"

definition isDigit :: "char \<Rightarrow> bool" where
  "isDigit c = (c \<in> set ''0123456789'')"

definition digitValue :: "char \<Rightarrow> int" where
  "digitValue c = of_char c - 48"

text \<open>
  \<^verbatim>\<open>Number.parseInt(s, 10)\<close>: leading white space is skipped, one sign is read, then
  the longest run of decimal digits; no digit gives \<^verbatim>\<open>NaN\<close>, and what follows the digits
  is ignored.
\<close>

definition parseInt :: "string \<Rightarrow> number" where
  "parseInt inputString =
     (let s = dropWhile isWhiteSpace inputString;
          sign = (if s \<noteq> [] \<and> hd s = CHR ''-'' then - 1 else 1);
          s' = (if s \<noteq> [] \<and> (hd s = CHR ''+'' \<or> hd s = CHR ''-'') then tl s else s);
          z = takeWhile isDigit s'
      in if z = [] then NaN else Num (sign * foldl (\<lambda>n c. 10 * n + digitValue c) 0 z))"

text \<open>The state of \<^verbatim>\<open>AddEventForm\<close>: the five input strings.\<close>

record FormState =
  title_input :: string
  date_input :: string
  description_input :: string
  location_input :: string
  maxAttendees_input :: string

text \<open>\<^verbatim>\<open>newErrors[key] = message; isValidForm = false\<close>.\<close>

definition setError ::
  "string \<Rightarrow> string \<Rightarrow> (string \<rightharpoonup> string) \<times> bool \<Rightarrow> (string \<rightharpoonup> string) \<times> bool" where
  "setError key message s = ((fst s)(key \<mapsto> message), False)"

text \<open>
  \<^verbatim>\<open>validateForm\<close> returns \<^verbatim>\<open>newErrors\<close> (the argument of \<^verbatim>\<open>setErrors\<close>) and
  \<^verbatim>\<open>isValidForm\<close>. The clock is read twice: \<open>now1\<close> is the \<^verbatim>\<open>new Date()\<close> compared
  with the parsed date, \<open>now2\<close> the one from which a minute is subtracted.
\<close>

definition validateForm ::
  "(string \<Rightarrow> Date option) \<Rightarrow> Date \<Rightarrow> Date \<Rightarrow> FormState \<Rightarrow> (string \<rightharpoonup> string) \<times> bool" where
  "validateForm parseISO now1 now2 form =
     (let s0 = (Map.empty, True);
          s1 = (if trim (title_input form) = [] then setError ''title'' ''Title is required.'' s0
                else s0);
          s2 = (if date_input form = [] then setError ''date'' ''Date and time are required.'' s1
                else
                  (case parseISO (date_input form) of
                     None \<Rightarrow> setError ''date'' ''Invalid date/time format.'' s1
                   | Some selectedDate' \<Rightarrow>
                       if isBefore selectedDate' now1 then
                         (let oneMinuteAgo = newDate (getTime now2 - 60000) in
                          if isBefore selectedDate' oneMinuteAgo
                          then setError ''date'' ''Date/time cannot be in the past.'' s1
                          else s1)
                       else s1));
          s3 = (if trim (location_input form) = []
                then setError ''location'' ''Location is required.'' s2 else s2);
          s4 = (if maxAttendees_input form \<noteq> [] \<and> le_zero (parseInt (maxAttendees_input form))
                then setError ''maxAttendees'' ''Max attendees must be a positive number.'' s3
                else s3)
      in s4)"

text \<open>
  \<^verbatim>\<open>handleSubmit\<close>: the errors set, and the argument of the call of \<^verbatim>\<open>onAddEvent\<close>,
  \<open>None\<close> when it is not called.
\<close>

definition handleSubmit ::
  "(string \<Rightarrow> Date option) \<Rightarrow> Date \<Rightarrow> Date \<Rightarrow> FormState \<Rightarrow>
   (string \<rightharpoonup> string) \<times> EventData option" where
  "handleSubmit parseISO now1 now2 form =
     (let r = validateForm parseISO now1 now2 form in
      (fst r,
       if snd r then
         Some \<lparr>title = trim (title_input form), date = date_input form,
               description = trim (description_input form),
               location = trim (location_input form),
               maxAttendees = (if maxAttendees_input form \<noteq> []
                               then Some (parseInt (maxAttendees_input form)) else None)\<rparr>
       else None))"






section \<open>Notions used in the statements\<close>

text \<open>The day key of an event: \<^verbatim>\<open>format(parseISO(event.date), "yyyy-MM-dd")\<close>, none for an invalid date.\<close>

definition dateKeyOf ::
  "(string \<Rightarrow> Date option) \<Rightarrow> (Date \<Rightarrow> string \<Rightarrow> string) \<Rightarrow> Event \<Rightarrow> string option" where
  "dateKeyOf parseISO format event =
     map_option (\<lambda>d. format d ''yyyy-MM-dd'') (parseISO (date event))"

text \<open>The events of a list with a given day key, in the order of the list.\<close>

definition groupOf ::
  "(string \<Rightarrow> Date option) \<Rightarrow> (Date \<Rightarrow> string \<Rightarrow> string) \<Rightarrow> Event list \<Rightarrow> string \<Rightarrow> Event list" where
  "groupOf parseISO format evs k = filter (\<lambda>e. dateKeyOf parseISO format e = Some k) evs"

text \<open>The outcome of the checks on the date field: the message set, if any.\<close>

definition dateRejected :: "(string \<Rightarrow> Date option) \<Rightarrow> Date \<Rightarrow> Date \<Rightarrow> FormState \<Rightarrow> string option" where
  "dateRejected parseISO now1 now2 form =
     (if date_input form = [] then Some ''Date and time are required.''
      else case parseISO (date_input form) of
        None \<Rightarrow> Some ''Invalid date/time format.''
      | Some d \<Rightarrow>
          if getTime d < getTime now1 \<and> getTime d < getTime now2 - 60000
          then Some ''Date/time cannot be in the past.'' else None)"

section \<open>Sample data\<close>

definition alice :: Attendee where
  "alice = \<lparr>attendee_id = ''user2'', attendee_name = ''Alice'', avatarColor = None\<rparr>"

definition bob :: Attendee where
  "bob = \<lparr>attendee_id = ''user3'', attendee_name = ''Bob'', avatarColor = None\<rparr>"

definition hike :: Event where
  "hike = \<lparr>title = ''Hike'', date = ''2025-01-22T09:00'', description = [],
      location = ''Trail'', maxAttendees = Some (Num 1), event_id = ''evt2'',
      attendees = [bob], createdBy = bob\<rparr>"

definition lunch :: Event where
  "lunch = \<lparr>title = ''Lunch'', date = ''2025-01-15T13:00'', description = [],
      location = ''Deli'', maxAttendees = None, event_id = ''evt1'',
      attendees = [bob], createdBy = bob\<rparr>"

definition standup :: Event where
  "standup = \<lparr>title = ''Standup'', date = ''2025-01-15T15:30'', description = [],
      location = ''Online'', maxAttendees = None, event_id = ''evt3'',
      attendees = [alice], createdBy = alice\<rparr>"

definition broken :: Event where
  "broken = \<lparr>title = ''Broken'', date = ''not-a-date'', description = [],
      location = ''Nowhere'', maxAttendees = None, event_id = ''evt4'',
      attendees = [alice], createdBy = alice\<rparr>"

text \<open>A \<^verbatim>\<open>parseISO\<close> and a \<^verbatim>\<open>format\<close> for the samples: the strings used here.\<close>

definition sampleParse :: "string \<Rightarrow> Date option" where
  "sampleParse s =
     (if s = ''2025-01-15T13:00'' then Some \<lparr>year = 2025, month = 0, dayOfMonth = 15, msOfDay = 46800000\<rparr>
      else if s = ''2025-01-15T15:30'' then Some \<lparr>year = 2025, month = 0, dayOfMonth = 15, msOfDay = 55800000\<rparr>
      else if s = ''2025-01-22T09:00'' then Some \<lparr>year = 2025, month = 0, dayOfMonth = 22, msOfDay = 32400000\<rparr>
      else None)"

definition sampleFormat :: "Date \<Rightarrow> string \<Rightarrow> string" where
  "sampleFormat d pattern =
     (if dayOfMonth d = 15 then ''2025-01-15'' else if dayOfMonth d = 22 then ''2025-01-22'' else ''other'')"


definition january15 :: Date where
  "january15 = \<lparr>year = 2025, month = 0, dayOfMonth = 15, msOfDay = 0\<rparr>"

definition sampleState :: AppState where
  "sampleState = \<lparr>events = [lunch, hike], selectedDate = None,
      isAddEventModalOpen = False, toasts = []\<rparr>"

definition november2025 :: Date where
  "november2025 = \<lparr>year = 2025, month = 10, dayOfMonth = 3, msOfDay = 45000000\<rparr>"

definition noon :: Date where
  "noon = \<lparr>year = 2025, month = 0, dayOfMonth = 15, msOfDay = 43200000\<rparr>"

definition syncForm :: "string \<Rightarrow> FormState" where
  "syncForm maxText = \<lparr>title_input = ''Sync'', date_input = ''2025-01-22T09:00'',
     description_input = [], location_input = ''X'', maxAttendees_input = maxText\<rparr>"



section \<open>Properties of the roster\<close>

lemma events_handleRsvp:
  "events (handleRsvp user eventId st) = map (\<lambda>e. fst (rsvpEvent user eventId e)) (events st)"
  by (simp add: handleRsvp_def Let_def comp_def)

lemma rsvpEvent_other:
  "event_id e \<noteq> eventId \<Longrightarrow> rsvpEvent user eventId e = (e, [])"
  by (simp add: rsvpEvent_def)




text \<open>
  C8. \<^verbatim>\<open>handleRsvp\<close> returns a list of the same length in which every event with
  another id is the event it was, and an event with the target id differs from its
  old version in the \<^verbatim>\<open>attendees\<close> field at most. When no event has the target id the
  whole state is unchanged: the same events and no toast. The other state fields are
  never written.
\<close>

theorem handleRsvp_frame:
  "length (events (handleRsvp user eventId st)) = length (events st) \<and>
   (\<forall>i < length (events st).
      (event_id (events st ! i) \<noteq> eventId \<longrightarrow>
         events (handleRsvp user eventId st) ! i = events st ! i) \<and>
      events (handleRsvp user eventId st) ! i =
        (events st ! i)\<lparr>attendees := attendees (events (handleRsvp user eventId st) ! i)\<rparr>) \<and>
   (eventId \<notin> event_id ` set (events st) \<longrightarrow> handleRsvp user eventId st = st) \<and>
   selectedDate (handleRsvp user eventId st) = selectedDate st \<and>
   isAddEventModalOpen (handleRsvp user eventId st) = isAddEventModalOpen st"
proof -
  have only: "fst (rsvpEvent user eventId e) = e\<lparr>attendees := attendees (fst (rsvpEvent user eventId e))\<rparr>" for e
    by (simp add: rsvpEvent_def Let_def)
  have absent: "handleRsvp user eventId st = st" if "eventId \<notin> event_id ` set (events st)"
  proof -
    have "\<forall>e \<in> set (events st). rsvpEvent user eventId e = (e, [])"
      using that by (metis (no_types) image_eqI rsvpEvent_other)
    then have "map (\<lambda>x. fst (rsvpEvent user eventId x)) (events st) = events st"
      and "concat (map (\<lambda>x. snd (rsvpEvent user eventId x)) (events st)) = []"
      by (simp_all add: map_idI)
    then show ?thesis
      by (simp add: handleRsvp_def Let_def comp_def)
  qed
  show ?thesis
    using only absent by (auto simp: events_handleRsvp rsvpEvent_other handleRsvp_def Let_def)
qed

theorem handleRsvp_frame_witness:
  "handleRsvp alice ''evt9'' sampleState = sampleState \<and>
   events (handleRsvp alice ''evt1'' sampleState) ! 1 = hike \<and>
   length (events (handleRsvp alice ''evt1'' sampleState)) = 2"
  using handleRsvp_frame [of alice "''evt9''" sampleState]
    handleRsvp_frame [of alice "''evt1''" sampleState]
  by (simp add: sampleState_def hike_def lunch_def alice_def bob_def)

section \<open>Properties of the calendar grid\<close>

lemma daysInMonth_bounds: "28 \<le> daysInMonth y m" "daysInMonth y m \<le> 31"
  by (simp_all add: daysInMonth_def)

lemma validDate_nextDay: "validDate d \<Longrightarrow> validDate (nextDay d)"
  using daysInMonth_bounds(1) [of "year d" "Suc (month d)"] daysInMonth_bounds(1) [of "year d + 1" 0]
  by (auto simp: validDate_def nextDay_def)

lemma validDate_prevDay: "validDate d \<Longrightarrow> validDate (prevDay d)"
  using daysInMonth_bounds(1) [of "year d" "month d - 1"]
  by (auto simp: validDate_def prevDay_def daysInMonth_def)

lemma msOfDay_prevDay: "msOfDay (prevDay d) = msOfDay d"
  by (simp add: prevDay_def)

lemma dayNumber_prevDay:
  assumes "1 \<le> dayOfMonth d"
  shows "dayNumber (prevDay d) = dayNumber d - 1"
proof (cases "dayOfMonth d \<noteq> 1")
  case True
  with assms show ?thesis
    by (simp add: prevDay_def dayNumber_def)
next
  case first: False
  show ?thesis
  proof (cases "month d \<noteq> 0")
    case True
    then have "daysBeforeMonth (year d) (month d) =
        daysBeforeMonth (year d) (month d - 1) + daysInMonth (year d) (month d - 1)"
      using daysBeforeMonth_Suc [of "year d" "month d - 1"] by simp
    with first True show ?thesis
      by (simp add: prevDay_def dayNumber_def)
  next
    case False
    have "daysBeforeMonth (year d - 1) 12 = daysBeforeMonth (year d - 1) 11 + 31"
      using daysBeforeMonth_Suc [of "year d - 1" 11] by (simp add: daysInMonth_def)
    then have "dayFromYear (year d) =
        dayFromYear (year d - 1) + int (daysBeforeMonth (year d - 1) 11) + 31"
      using dayFromYear_Suc [of "year d - 1"]
      by (cases "isLeapYear (year d - 1)") (simp_all add: daysBeforeMonth_12)
    with first False show ?thesis
      by (simp add: prevDay_def dayNumber_def daysBeforeMonth_0)
  qed
qed

lemma nextDay_prevDay: "validDate d \<Longrightarrow> nextDay (prevDay d) = d"
  by (auto simp: validDate_def nextDay_def prevDay_def daysInMonth_def)

lemma funpow_nextDay_prevDay:
  "validDate d \<Longrightarrow> (nextDay ^^ k) ((prevDay ^^ k) d) = d \<and> validDate ((prevDay ^^ k) d)"
proof (induction k)
  case 0
  then show ?case by simp
next
  case (Suc k)
  let ?p = "(prevDay ^^ k) d"
  from Suc have p: "validDate ?p" "(nextDay ^^ k) ?p = d"
    by simp_all
  have a: "(prevDay ^^ Suc k) d = prevDay ?p"
    by simp
  have b: "(nextDay ^^ Suc k) x = (nextDay ^^ k) (nextDay x)" for x
    by (simp add: funpow_swap1)
  have "(nextDay ^^ Suc k) ((prevDay ^^ Suc k) d) = (nextDay ^^ k) (nextDay (prevDay ?p))"
    unfolding a b ..
  also have "\<dots> = d"
    using p by (simp add: nextDay_prevDay)
  finally show ?case
    using p unfolding a by (simp add: validDate_prevDay)
qed

lemma funpow_prevDay:
  "validDate d \<Longrightarrow> dayNumber ((prevDay ^^ k) d) = dayNumber d - int k \<and>
     msOfDay ((prevDay ^^ k) d) = msOfDay d"
proof (induction k)
  case 0
  then show ?case by simp
next
  case (Suc k)
  have "validDate ((prevDay ^^ k) d)"
    using Suc.prems funpow_nextDay_prevDay by blast
  then have "1 \<le> dayOfMonth ((prevDay ^^ k) d)"
    by (simp add: validDate_def)
  with Suc show ?case
    by (simp add: dayNumber_prevDay msOfDay_prevDay)
qed

lemma funpow_nextDay:
  "dayNumber ((nextDay ^^ k) d) = dayNumber d + int k \<and> msOfDay ((nextDay ^^ k) d) = msOfDay d"
  by (induction k) (simp_all add: dayNumber_nextDay msOfDay_nextDay)

lemma validDate_funpow_nextDay: "validDate d \<Longrightarrow> validDate ((nextDay ^^ k) d)"
  by (induction k) (simp_all add: validDate_nextDay)

lemma nextDay_within_month:
  assumes "k + 1 \<le> daysInMonth y m"
  shows "(nextDay ^^ k) \<lparr>year = y, month = m, dayOfMonth = 1, msOfDay = t\<rparr> =
     \<lparr>year = y, month = m, dayOfMonth = k + 1, msOfDay = t\<rparr>"
  using assms
proof (induction k)
  case 0
  then show ?case by simp
next
  case (Suc k)
  then show ?case
    by (simp add: nextDay_def)
qed

lemma upt_Suc_shift: "[0..<Suc n] = 0 # map Suc [0..<n]"
  by (simp add: upt_conv_Cons map_Suc_upt del: upt_Suc)

lemma weekLoop_0:
  "weekLoop 0 day [] = (map (\<lambda>k. (nextDay ^^ k) day) [0..<7], (nextDay ^^ 7) day)"
  by (simp add: weekLoop_result)

lemma monthLoop_weeks:
  assumes "msOfDay day = 0" and "int (msOfDay e) < msPerDay"
    and "dayNumber e + 1 = dayNumber day + 7 * int n"
  shows "monthLoop day e rows =
     rows @ map (\<lambda>j. map (\<lambda>k. (nextDay ^^ (7 * j + k)) day) [0..<7]) [0..<n]"
  using assms
proof (induction n arbitrary: day rows)
  case 0
  then have "getTime e < getTime day"
    by (simp add: getTime_def msPerDay_def)
  then show ?case
    by (subst monthLoop.simps) simp
next
  case (Suc n)
  let ?w = "map (\<lambda>k. (nextDay ^^ k) day) [0..<7]"
  let ?d = "(nextDay ^^ 7) day"
  have le: "getTime day \<le> getTime e"
    using Suc.prems by (simp add: getTime_def msPerDay_def)
  have d: "msOfDay ?d = 0" "dayNumber e + 1 = dayNumber ?d + 7 * int n"
    using Suc.prems funpow_nextDay [of 7 day] by simp_all
  have shift: "(nextDay ^^ (7 * j + k)) ?d = (nextDay ^^ (7 * Suc j + k)) day" for j k
  proof -
    have "7 * Suc j + k = (7 * j + k) + 7"
      by simp
    then show ?thesis
      by (simp only: funpow_add o_apply)
  qed
  have "monthLoop day e rows = monthLoop ?d e (rows @ [?w])"
    using le by (subst monthLoop.simps) (simp add: weekLoop_0)
  also have "\<dots> = (rows @ [?w]) @
      map (\<lambda>j. map (\<lambda>k. (nextDay ^^ (7 * j + k)) ?d) [0..<7]) [0..<n]"
    using Suc.IH [OF d(1) Suc.prems(2) d(2)] .
  also have "\<dots> = rows @
      map (\<lambda>j. map (\<lambda>k. (nextDay ^^ (7 * j + k)) day) [0..<7]) [0..<Suc n]"
    unfolding shift upt_Suc_shift [of n] by (simp add: comp_def del: funpow.simps)
  finally show ?case .
qed

lemma concat_weeks:
  "concat (map (\<lambda>j. map (\<lambda>k. f (7 * j + k)) [0..<7]) [0..<n]) = map f [0..<7 * n]"
proof (induction n)
  case 0
  then show ?case by simp
next
  case (Suc n)
  have "[0..<7 * Suc n] = [0..<7 * n] @ [7 * n..<7 + 7 * n]"
    using upt_add_eq_append [of 0 "7 * n" 7] by (simp add: add.commute)
  moreover have "map f [7 * n..<7 + 7 * n] = map (\<lambda>k. f (7 * n + k)) [0..<7]"
  proof -
    have e: "[7 * n..<7 + 7 * n] = map (\<lambda>i. i + 7 * n) [0..<7]"
      using map_add_upt [of "7 * n" 7] by simp
    show ?thesis
      unfolding e by (simp add: add.commute)
  qed
  ultimately show ?case
    using Suc by simp
qed

lemma map_int_upt: "map (\<lambda>i. a + int i) [0..<k] = [a..a + int k - 1]"
proof (induction k)
  case 0
  then show ?case by simp
next
  case (Suc k)
  have "[a..a + int k] = [a..a + int k - 1] @ [a + int k]"
    by (rule upto_rec2) simp
  with Suc show ?case
    by (simp add: algebra_simps)
qed

lemma addDays_nat: "addDays d (int k) = (nextDay ^^ k) d"
  by (simp add: addDays_def)

lemma addDays_neg: "addDays d (- int k) = (prevDay ^^ k) d"
  by (cases "k = 0") (simp_all add: addDays_def)

lemma dayNumber_msOfDay_update: "dayNumber (d\<lparr>msOfDay := t\<rparr>) = dayNumber d"
  by (simp add: dayNumber_def)

lemma getDay_less: "getDay d < 7"
  by (simp add: getDay_def nat_less_iff)

lemma week_count:
  fixes a b :: int
  assumes "a \<le> b"
  shows "\<exists>n. 0 < n \<and> (b + 6 - (b + 4) mod 7) + 1 = (a - (a + 4) mod 7) + 7 * int n"
proof -
  have A: "a - (a + 4) mod 7 = 7 * ((a + 4) div 7) - 4"
    using minus_mod_eq_mult_div [of "a + 4" 7] by simp
  have B: "b - (b + 4) mod 7 = 7 * ((b + 4) div 7) - 4"
    using minus_mod_eq_mult_div [of "b + 4" 7] by simp
  have le: "(a + 4) div 7 \<le> (b + 4) div 7"
    using assms by (simp add: zdiv_mono1)
  define n where "n = nat ((b + 4) div 7 - (a + 4) div 7 + 1)"
  have "0 < n" "int n = (b + 4) div 7 - (a + 4) div 7 + 1"
    using le by (simp_all add: n_def)
  then show ?thesis
    using A B by (intro exI [of _ n]) simp
qed

lemma weekday_back: "(a - (a + 4) mod 7 + 4) mod 7 = 0" for a :: int
  by presburger

lemma weekday_forward: "(b + 6 - (b + 4) mod 7 + 4) mod 7 = 6" for b :: int
  by presburger

lemma calendarDays_cells:
  assumes m: "month currentMonth < 12"
  defines "first \<equiv> \<lparr>year = year currentMonth, month = month currentMonth, dayOfMonth = 1, msOfDay = 0\<rparr>"
  defines "s \<equiv> startOfWeek (startOfMonth currentMonth)"
  defines "e \<equiv> endOfWeek (endOfMonth (startOfMonth currentMonth))"
  shows "\<exists>n. 0 < n \<and>
      calendarDays currentMonth =
        map (\<lambda>j. map (\<lambda>k. (nextDay ^^ (7 * j + k)) s) [0..<7]) [0..<n] \<and>
      dayNumber e + 1 = dayNumber s + 7 * int n"
    and "validDate s" and "msOfDay s = 0" and "getDay s = 0" and "getDay e = 6"
    and "(nextDay ^^ getDay first) s = first"
    and "dayNumber s = dayNumber first - int (getDay first)"
    and "dayNumber e = dayNumber (first\<lparr>dayOfMonth := daysInMonth (year currentMonth) (month currentMonth)\<rparr>)
           + 6 - int (getDay (first\<lparr>dayOfMonth := daysInMonth (year currentMonth) (month currentMonth)\<rparr>))"
proof -
  let ?dim = "daysInMonth (year currentMonth) (month currentMonth)"
  let ?last = "first\<lparr>dayOfMonth := ?dim\<rparr>"
  have ms: "startOfMonth currentMonth = first"
    by (simp add: startOfMonth_def first_def)
  have vfirst: "validDate first"
    using m daysInMonth_bounds(1) [of "year currentMonth" "month currentMonth"]
    by (simp add: validDate_def first_def msPerDay_def)
  have me: "endOfMonth first = ?last\<lparr>msOfDay := 86399999\<rparr>"
    by (simp add: endOfMonth_def first_def)
  have vlast: "validDate (endOfMonth first)"
    using m daysInMonth_bounds(1) [of "year currentMonth" "month currentMonth"]
    by (simp add: validDate_def endOfMonth_def first_def msPerDay_def)
  have s: "s = (prevDay ^^ getDay first) first"
  proof -
    have "msOfDay ((prevDay ^^ getDay first) first) = 0"
      using funpow_prevDay [OF vfirst, of "getDay first"] by (simp add: first_def)
    then show ?thesis
      by (simp add: s_def ms startOfWeek_def addDays_neg)
  qed
  show vs: "validDate s" and again: "(nextDay ^^ getDay first) s = first"
    using funpow_nextDay_prevDay [OF vfirst, of "getDay first"] by (simp_all add: s)
  show ms0: "msOfDay s = 0" and dns: "dayNumber s = dayNumber first - int (getDay first)"
    using funpow_prevDay [OF vfirst, of "getDay first"] by (simp_all add: s first_def)
  have six: "6 - int (getDay d) = int (6 - getDay d)" for d
    using getDay_less [of d] by simp
  have e: "e = ((nextDay ^^ (6 - getDay (endOfMonth first))) (endOfMonth first))\<lparr>msOfDay := 86399999\<rparr>"
    by (simp only: e_def ms endOfWeek_def six addDays_nat)
  have gl: "getDay (endOfMonth first) = getDay ?last"
    by (simp add: me getDay_def dayNumber_msOfDay_update)
  show dne: "dayNumber e = dayNumber ?last + 6 - int (getDay ?last)"
    using funpow_nextDay [of "6 - getDay ?last" "endOfMonth first"] getDay_less [of ?last]
    by (simp add: e gl dayNumber_msOfDay_update) (simp add: me dayNumber_msOfDay_update)
  have mse: "int (msOfDay e) < msPerDay"
    by (simp add: e msPerDay_def)
  have le: "dayNumber first \<le> dayNumber ?last"
    using daysInMonth_bounds(1) [of "year currentMonth" "month currentMonth"]
    by (simp add: dayNumber_def first_def)
  have gs: "int (getDay first) = (dayNumber first + 4) mod 7"
    and ge: "int (getDay ?last) = (dayNumber ?last + 4) mod 7"
    by (simp_all add: getDay_def)
  have "(dayNumber s + 4) mod 7 = 0"
    unfolding dns gs by (rule weekday_back)
  then show "getDay s = 0"
    by (simp add: getDay_def)
  have "(dayNumber e + 4) mod 7 = 6"
    unfolding dne ge by (rule weekday_forward)
  then show "getDay e = 6"
    by (simp add: getDay_def)
  obtain n where n: "0 < n"
      "(dayNumber ?last + 6 - (dayNumber ?last + 4) mod 7) + 1 =
       (dayNumber first - (dayNumber first + 4) mod 7) + 7 * int n"
    using week_count [OF le] by blast
  then have cnt: "dayNumber e + 1 = dayNumber s + 7 * int n"
    by (simp add: dne dns gs ge)
  have "calendarDays currentMonth = monthLoop s e []"
    by (simp add: calendarDays_def Let_def s_def e_def)
  also have "\<dots> = map (\<lambda>j. map (\<lambda>k. (nextDay ^^ (7 * j + k)) s) [0..<7]) [0..<n]"
    using monthLoop_weeks [OF ms0 mse cnt, of "[]"] by simp
  finally show "\<exists>n. 0 < n \<and>
      calendarDays currentMonth =
        map (\<lambda>j. map (\<lambda>k. (nextDay ^^ (7 * j + k)) s) [0..<7]) [0..<n] \<and>
      dayNumber e + 1 = dayNumber s + 7 * int n"
    using n(1) cnt by blast
qed

text \<open>
  C2. For a current month whose month index is valid, \<^verbatim>\<open>calendarDays\<close> returns at
  least one row; every row has seven cells and starts on a Sunday; every cell is a valid
  date at local midnight; the day numbers of the cells, read row by row, are the
  consecutive integers from the first cell to the last, so no day is skipped or repeated;
  the first cell is the Sunday on or before the 1st of the month (at most six days
  earlier), the last cell the Saturday on or after its last day; and every day of the
  month is a cell. The function is total: both loops have a termination proof.
\<close>

theorem calendarDays_grid:
  assumes m: "month currentMonth < 12"
    and rows: "rows = calendarDays currentMonth"
    and cells: "cells = concat rows"
    and first: "firstOfMonth =
      \<lparr>year = year currentMonth, month = month currentMonth, dayOfMonth = 1, msOfDay = 0\<rparr>"
    and last: "lastOfMonth =
      firstOfMonth\<lparr>dayOfMonth := daysInMonth (year currentMonth) (month currentMonth)\<rparr>"
  shows "rows \<noteq> [] \<and>
    (\<forall>r \<in> set rows. length r = 7 \<and> getDay (hd r) = 0) \<and>
    (\<forall>c \<in> set cells. validDate c \<and> msOfDay c = 0) \<and>
    map dayNumber cells = [dayNumber (hd cells)..dayNumber (last cells)] \<and>
    distinct cells \<and>
    getDay (hd cells) = 0 \<and>
    dayNumber (hd cells) \<le> dayNumber firstOfMonth \<and>
    dayNumber firstOfMonth < dayNumber (hd cells) + 7 \<and>
    getDay (last cells) = 6 \<and>
    dayNumber lastOfMonth \<le> dayNumber (last cells) \<and>
    dayNumber (last cells) < dayNumber lastOfMonth + 7 \<and>
    (\<forall>k. 1 \<le> k \<and> k \<le> daysInMonth (year currentMonth) (month currentMonth) \<longrightarrow>
       firstOfMonth\<lparr>dayOfMonth := k\<rparr> \<in> set cells)"
proof -
  define s where "s = startOfWeek (startOfMonth currentMonth)"
  define e where "e = endOfWeek (endOfMonth (startOfMonth currentMonth))"
  let ?dim = "daysInMonth (year currentMonth) (month currentMonth)"
  note facts = calendarDays_cells [OF m, folded s_def e_def first last]
  obtain n where n: "0 < n"
      and grid: "rows = map (\<lambda>j. map (\<lambda>k. (nextDay ^^ (7 * j + k)) s) [0..<7]) [0..<n]"
      and cnt: "dayNumber e + 1 = dayNumber s + 7 * int n"
    using facts(1) rows by blast
  have vs: "validDate s" and ms0: "msOfDay s = 0" and gs: "getDay s = 0" and ge: "getDay e = 6"
    and again: "(nextDay ^^ getDay firstOfMonth) s = firstOfMonth"
    and dns: "dayNumber s = dayNumber firstOfMonth - int (getDay firstOfMonth)"
    and dne: "dayNumber e = dayNumber lastOfMonth + 6 - int (getDay lastOfMonth)"
    using facts(2-8) by simp_all
  have cs: "cells = map (\<lambda>i. (nextDay ^^ i) s) [0..<7 * n]"
    unfolding cells grid by (rule concat_weeks)
  have len: "length cells = 7 * n"
    by (simp add: cs)
  have nth: "cells ! i = (nextDay ^^ i) s" if "i < 7 * n" for i
    using that by (simp add: cs)
  have ne: "cells \<noteq> []"
    using n len by auto
  have hd: "hd cells = s"
    using n nth [of 0] by (simp add: hd_conv_nth [OF ne])
  have lastc: "last cells = (nextDay ^^ (7 * n - 1)) s"
    using n nth [of "7 * n - 1"] len by (simp add: last_conv_nth [OF ne])
  have dnl: "dayNumber (last cells) = dayNumber e"
    using n cnt funpow_nextDay [of "7 * n - 1" s] by (simp add: lastc)
  have c1: "rows \<noteq> []"
    using n by (simp add: grid)
  have c2: "\<forall>r \<in> set rows. length r = 7 \<and> getDay (hd r) = 0"
  proof
    fix r assume "r \<in> set rows"
    then obtain j where r: "r = map (\<lambda>k. (nextDay ^^ (7 * j + k)) s) [0..<7]"
      by (auto simp: grid)
    have "hd r = (nextDay ^^ (7 * j)) s"
      by (simp add: r upt_conv_Cons del: upt_Suc)
    moreover have "(dayNumber s + 4) mod 7 = 0"
      using gs by (simp add: getDay_def)
    ultimately have "getDay (hd r) = 0"
      using funpow_nextDay [of "7 * j" s] by (simp add: getDay_def) presburger
    then show "length r = 7 \<and> getDay (hd r) = 0"
      by (simp add: r)
  qed
  have c3: "\<forall>c \<in> set cells. validDate c \<and> msOfDay c = 0"
    using vs ms0 funpow_nextDay by (auto simp: cs validDate_funpow_nextDay)
  have dn: "map dayNumber cells = [dayNumber s..dayNumber s + int (7 * n) - 1]"
    using map_int_upt [of "dayNumber s" "7 * n"] funpow_nextDay
    by (simp add: cs comp_def)
  have "dayNumber s + int (7 * n) - 1 = dayNumber e"
    using cnt by simp
  then have c4: "map dayNumber cells = [dayNumber (hd cells)..dayNumber (last cells)]"
    using dn by (simp only: hd dnl)
  have c5: "distinct cells"
    using distinct_upto [of "dayNumber (hd cells)" "dayNumber (last cells)"]
    unfolding c4 [symmetric] by (simp add: distinct_map)
  have w1: "int (getDay firstOfMonth) < 7" "int (getDay lastOfMonth) < 7"
    using getDay_less [of firstOfMonth] getDay_less [of lastOfMonth] by simp_all
  have c6: "getDay (hd cells) = 0 \<and> dayNumber (hd cells) \<le> dayNumber firstOfMonth \<and>
      dayNumber firstOfMonth < dayNumber (hd cells) + 7"
    using gs dns w1 by (simp add: hd)
  have ge': "getDay (last cells) = 6"
    using ge by (simp add: getDay_def dnl)
  have c7: "getDay (last cells) = 6 \<and> dayNumber lastOfMonth \<le> dayNumber (last cells) \<and>
      dayNumber (last cells) < dayNumber lastOfMonth + 7"
    using ge' dne w1 by (simp add: dnl)
  have c8: "\<forall>k. 1 \<le> k \<and> k \<le> ?dim \<longrightarrow> firstOfMonth\<lparr>dayOfMonth := k\<rparr> \<in> set cells"
  proof (intro allI impI)
    fix k assume k: "1 \<le> k \<and> k \<le> ?dim"
    then have "(nextDay ^^ (k - 1)) firstOfMonth = firstOfMonth\<lparr>dayOfMonth := k\<rparr>"
      using nextDay_within_month [of "k - 1" "year currentMonth" "month currentMonth" 0]
      by (simp add: first)
    then have at: "firstOfMonth\<lparr>dayOfMonth := k\<rparr> = (nextDay ^^ (k - 1 + getDay firstOfMonth)) s"
      using again by (simp add: funpow_add)
    have "dayNumber lastOfMonth = dayNumber firstOfMonth + int ?dim - 1"
      by (simp add: last first dayNumber_def)
    then have "int (k - 1 + getDay firstOfMonth) < int (7 * n)"
      using k cnt dns dne w1 by simp
    then have "k - 1 + getDay firstOfMonth < 7 * n"
      by (simp only: of_nat_less_iff)
    then show "firstOfMonth\<lparr>dayOfMonth := k\<rparr> \<in> set cells"
      unfolding at cs by simp
  qed
  from c1 c2 c3 c4 c5 c6 c7 c8 show ?thesis
    by blast
qed

theorem calendarDays_grid_witness:
  "month november2025 < 12 \<and>
   calendarDays november2025 \<noteq> [] \<and>
   distinct (concat (calendarDays november2025)) \<and>
   \<lparr>year = 2025, month = 10, dayOfMonth = 30, msOfDay = 0\<rparr> \<in> set (concat (calendarDays november2025))"
proof -
  have m: "month november2025 < 12"
    by (simp add: november2025_def)
  note grid = calendarDays_grid [OF m refl refl refl refl]
  have "1 \<le> (30::nat) \<and> 30 \<le> daysInMonth (year november2025) (month november2025)"
    by (simp add: november2025_def daysInMonth_def)
  with grid have "\<lparr>year = year november2025, month = month november2025, dayOfMonth = 1, msOfDay = 0\<rparr>
      \<lparr>dayOfMonth := 30\<rparr> \<in> set (concat (calendarDays november2025))"
    by blast
  with m grid show ?thesis
    by (simp add: november2025_def)
qed

text \<open>The grid of November 2025 runs from Sunday 26 October to Saturday 6 December.\<close>

lemma daysBeforeMonth_2025: "daysBeforeMonth 2025 10 = 304" "daysBeforeMonth 2025 11 = 334" "daysBeforeMonth 2025 9 = 273"
  by (simp_all add: daysBeforeMonth_def daysInMonth_def isLeapYear_def upt_rec)

lemma funpow_6: "(f ^^ 6) x = f (f (f (f (f (f x)))))"
  by (simp add: eval_nat_numeral)

lemma startOfWeek_november2025:
  "startOfWeek (startOfMonth november2025) = \<lparr>year = 2025, month = 9, dayOfMonth = 26, msOfDay = 0\<rparr>"
proof -
  have "getDay (startOfMonth november2025) = 6"
    by (simp add: startOfMonth_def november2025_def getDay_def dayNumber_def dayFromYear_def daysBeforeMonth_2025)
  then show ?thesis
    by (simp add: startOfWeek_def addDays_def funpow_6)
      (simp add: startOfMonth_def november2025_def prevDay_def daysInMonth_def)
qed

lemma endOfWeek_november2025:
  "endOfWeek (endOfMonth (startOfMonth november2025)) =
     \<lparr>year = 2025, month = 11, dayOfMonth = 6, msOfDay = 86399999\<rparr>"
proof -
  have "getDay (endOfMonth (startOfMonth november2025)) = 0"
    by (simp add: endOfMonth_def startOfMonth_def november2025_def getDay_def dayNumber_def
        dayFromYear_def daysBeforeMonth_2025 daysInMonth_def)
  then show ?thesis
    by (simp add: endOfWeek_def addDays_def funpow_6)
      (simp add: endOfMonth_def startOfMonth_def november2025_def nextDay_def daysInMonth_def)
qed

lemma calendarDays_november2025:
  "length (calendarDays november2025) = 6 \<and>
   hd (hd (calendarDays november2025)) = \<lparr>year = 2025, month = 9, dayOfMonth = 26, msOfDay = 0\<rparr>"
proof -
  have m: "month november2025 < 12"
    by (simp add: november2025_def)
  let ?s = "\<lparr>year = 2025, month = 9, dayOfMonth = 26, msOfDay = 0\<rparr>"
  let ?e = "\<lparr>year = 2025, month = 11, dayOfMonth = 6, msOfDay = 86399999\<rparr>"
  obtain n where n: "0 < n"
      "calendarDays november2025 = map (\<lambda>j. map (\<lambda>k. (nextDay ^^ (7 * j + k)) ?s) [0..<7]) [0..<n]"
      "dayNumber ?e + 1 = dayNumber ?s + 7 * int n"
    using calendarDays_cells(1) [OF m]
    unfolding startOfWeek_november2025 endOfWeek_november2025 by blast
  from n(3) have "n = 6"
    by (simp add: dayNumber_def daysBeforeMonth_2025)
  then show ?thesis
    by (simp add: n(2) upt_rec hd_map)
qed

section \<open>Properties of the day views\<close>

lemma onDay_iff:
  "onDay parseISO day e = (\<exists>d. parseISO (date e) = Some d \<and> isSameDay d day)"
  by (simp add: onDay_def split: option.split)

text \<open>
  C3. With a selected day, \<^verbatim>\<open>eventsOnSelectedDate\<close> returns exactly the events whose
  date is valid and on that day, each as often as in the source list; the result is in
  ascending order of the time values; events with the same time value keep the order
  they have in the source list; and when no event matches, the result is the empty
  list. An event with an invalid date never matches.
\<close>

theorem eventsOnSelectedDate_sorted:
  assumes "r = eventsOnSelectedDate parseISO (Some day) evs"
  shows "mset r = mset (filter (\<lambda>e. \<exists>d. parseISO (date e) = Some d \<and> isSameDay d day) evs) \<and>
    sorted (map (eventTime parseISO) r) \<and>
    (\<forall>e \<in> set r. \<exists>d. parseISO (date e) = Some d \<and> isSameDay d day \<and> eventTime parseISO e = getTime d) \<and>
    (\<forall>t. filter (\<lambda>e. eventTime parseISO e = t) r =
         filter (\<lambda>e. eventTime parseISO e = t)
           (filter (\<lambda>e. \<exists>d. parseISO (date e) = Some d \<and> isSameDay d day) evs)) \<and>
    ((\<forall>e \<in> set evs. \<not> (\<exists>d. parseISO (date e) = Some d \<and> isSameDay d day)) \<longrightarrow> r = [])"
proof -
  let ?P = "\<lambda>e. \<exists>d. parseISO (date e) = Some d \<and> isSameDay d day"
  have P: "onDay parseISO day = ?P"
    by (rule ext) (rule onDay_iff)
  have r: "r = sort_key (eventTime parseISO) (filter ?P evs)"
    by (simp add: assms eventsOnSelectedDate_def P)
  have 1: "mset r = mset (filter ?P evs)"
    by (simp add: r)
  have 2: "sorted (map (eventTime parseISO) r)"
    by (simp add: r)
  have 3: "\<forall>e \<in> set r. \<exists>d. parseISO (date e) = Some d \<and> isSameDay d day \<and> eventTime parseISO e = getTime d"
    by (auto simp: r eventTime_def)
  have 4: "\<forall>t. filter (\<lambda>e. eventTime parseISO e = t) r =
         filter (\<lambda>e. eventTime parseISO e = t) (filter ?P evs)"
    by (simp only: r sort_key_stable) simp
  have 5: "(\<forall>e \<in> set evs. \<not> ?P e) \<longrightarrow> r = []"
    by (simp add: r filter_empty_conv)
  from 1 2 3 4 5 show ?thesis
    by blast
qed

lemma sample_sort:
  "eventsOnSelectedDate sampleParse (Some january15) [standup, hike, broken, lunch] = [lunch, standup]"
  by (simp add: eventsOnSelectedDate_def onDay_def sampleParse_def standup_def hike_def broken_def
      lunch_def january15_def isSameDay_def startOfDay_def getTime_def dayNumber_def eventTime_def
      msPerDay_def)

theorem eventsOnSelectedDate_sorted_witness:
  "mset (eventsOnSelectedDate sampleParse (Some january15) [standup, hike, broken, lunch])
     = {#standup, lunch#} \<and>
   sorted (map (eventTime sampleParse)
     (eventsOnSelectedDate sampleParse (Some january15) [standup, hike, broken, lunch]))"
proof -
  note t = eventsOnSelectedDate_sorted [OF refl, of sampleParse january15 "[standup, hike, broken, lunch]"]
  have "mset (eventsOnSelectedDate sampleParse (Some january15) [standup, hike, broken, lunch])
     = {#standup, lunch#}"
    by (simp add: sample_sort)
  with t [THEN conjunct2, THEN conjunct1] show ?thesis
    by (rule conjI [rotated])
qed

text \<open>
  C10. Without a selected day (\<^verbatim>\<open>selectedDate\<close> is null), \<^verbatim>\<open>eventsOnSelectedDate\<close>
  is the empty list for every event list.
\<close>

theorem eventsOnSelectedDate_none:
  "eventsOnSelectedDate parseISO None evs = []"
  by (simp add: eventsOnSelectedDate_def)

lemma update_concat_mset:
  assumes "distinct (map fst al)"
  shows "mset (concat (map snd (AList.update k ((case map_of al k of None \<Rightarrow> [] | Some g \<Rightarrow> g) @ [x]) al)))
     = add_mset x (mset (concat (map snd al)))"
  using assms
proof (induction al)
  case Nil
  then show ?case by simp
next
  case (Cons p al)
  obtain k' g' where p: "p = (k', g')"
    by (cases p)
  show ?case
  proof (cases "k' = k")
    case True
    then show ?thesis
      by (simp add: p)
  next
    case False
    with Cons show ?thesis
      by (simp add: p)
  qed
qed

lemma eventsByDate_snoc:
  "eventsByDate parseISO format (evs @ [x]) = indexEvent parseISO format (eventsByDate parseISO format evs) x"
  by (simp add: eventsByDate_def)

lemma eventsByDate_invariant:
  "distinct (map fst (eventsByDate parseISO format evs)) \<and>
   (\<forall>k. map_of (eventsByDate parseISO format evs) k =
      (if groupOf parseISO format evs k = [] then None else Some (groupOf parseISO format evs k))) \<and>
   mset (concat (map snd (eventsByDate parseISO format evs))) =
     mset (filter (\<lambda>e. parseISO (date e) \<noteq> None) evs)"
proof (induction evs rule: rev_induct)
  case Nil
  then show ?case
    by (simp add: eventsByDate_def groupOf_def)
next
  case (snoc x evs)
  let ?m = "eventsByDate parseISO format evs"
  show ?case
  proof (cases "parseISO (date x)")
    case None
    then have "indexEvent parseISO format ?m x = ?m"
      by (simp add: indexEvent_def)
    moreover have "groupOf parseISO format (evs @ [x]) k = groupOf parseISO format evs k" for k
      using None by (simp add: groupOf_def dateKeyOf_def)
    ultimately show ?thesis
      using snoc None by (simp add: eventsByDate_snoc)
  next
    case (Some d)
    let ?k = "format d ''yyyy-MM-dd''"
    let ?g = "case map_of ?m ?k of None \<Rightarrow> [] | Some g \<Rightarrow> g"
    have step: "indexEvent parseISO format ?m x = AList.update ?k (?g @ [x]) ?m"
      using Some by (simp add: indexEvent_def Let_def)
    have key: "dateKeyOf parseISO format x = Some ?k"
      using Some by (simp add: dateKeyOf_def)
    have old: "?g = groupOf parseISO format evs ?k"
      using snoc by simp
    have same: "groupOf parseISO format (evs @ [x]) ?k = groupOf parseISO format evs ?k @ [x]"
      using key by (simp add: groupOf_def)
    have other: "groupOf parseISO format (evs @ [x]) k = groupOf parseISO format evs k" if "k \<noteq> ?k" for k
      using key that by (simp add: groupOf_def)
    have 1: "distinct (map fst (AList.update ?k (?g @ [x]) ?m))"
      using snoc by (simp add: distinct_update)
    have 2: "map_of (AList.update ?k (?g @ [x]) ?m) k =
        (if groupOf parseISO format (evs @ [x]) k = [] then None
         else Some (groupOf parseISO format (evs @ [x]) k))" for k
    proof (cases "k = ?k")
      case True
      then show ?thesis
        by (simp add: update_conv' same old)
    next
      case False
      with snoc show ?thesis
        by (simp add: update_conv' other)
    qed
    have 3: "mset (concat (map snd (AList.update ?k (?g @ [x]) ?m))) =
        mset (filter (\<lambda>e. parseISO (date e) \<noteq> None) (evs @ [x]))"
      using snoc Some update_concat_mset [of ?m ?k x] by simp
    from 1 2 3 show ?thesis
      by (simp only: eventsByDate_snoc step) simp
  qed
qed

text \<open>
  C7. The keys of \<^verbatim>\<open>eventsByDate\<close> are pairwise distinct; the group stored under a
  key is not empty and is the sublist, in source order, of the events with a valid date
  and that day key; the key of every event with a valid date is present; the groups
  together hold exactly the events with a valid date, each as often as in the source
  list; and the groups of two different keys share no event.
\<close>

theorem eventsByDate_partition:
  assumes "idx = eventsByDate parseISO format evs"
  shows "distinct (map fst idx) \<and>
    (\<forall>k g. (k, g) \<in> set idx \<longrightarrow>
       g \<noteq> [] \<and> g = filter (\<lambda>e. dateKeyOf parseISO format e = Some k) evs) \<and>
    (\<forall>e \<in> set evs. \<forall>k. dateKeyOf parseISO format e = Some k \<longrightarrow> k \<in> fst ` set idx) \<and>
    mset (concat (map snd idx)) = mset (filter (\<lambda>e. parseISO (date e) \<noteq> None) evs) \<and>
    (\<forall>k g k' g'. (k, g) \<in> set idx \<and> (k', g') \<in> set idx \<and> k \<noteq> k' \<longrightarrow> set g \<inter> set g' = {})"
proof -
  note inv = eventsByDate_invariant [of parseISO format evs, folded assms]
  have d: "distinct (map fst idx)"
    using inv by blast
  have look: "map_of idx k =
      (if groupOf parseISO format evs k = [] then None else Some (groupOf parseISO format evs k))" for k
    using inv by blast
  have grp: "g \<noteq> [] \<and> g = filter (\<lambda>e. dateKeyOf parseISO format e = Some k) evs"
    if "(k, g) \<in> set idx" for k g
  proof -
    have "map_of idx k = Some g"
      using d that by simp
    then show ?thesis
      using look [of k] by (simp add: groupOf_def split: if_splits)
  qed
  have pres: "k \<in> fst ` set idx" if "e \<in> set evs" "dateKeyOf parseISO format e = Some k" for e k
  proof -
    have "e \<in> set (groupOf parseISO format evs k)"
      using that by (simp add: groupOf_def)
    then have "map_of idx k \<noteq> None"
      using look [of k] by auto
    then show ?thesis
      by (simp add: map_of_eq_None_iff)
  qed
  have disj: "set g \<inter> set g' = {}"
    if "(k, g) \<in> set idx" "(k', g') \<in> set idx" "k \<noteq> k'" for k g k' g'
    using grp [OF that(1)] grp [OF that(2)] that(3) by auto
  show ?thesis
    using d grp pres disj inv by blast
qed

lemma sample_index:
  "eventsByDate sampleParse sampleFormat [standup, hike, broken, lunch] =
     [(''2025-01-15'', [standup, lunch]), (''2025-01-22'', [hike])]"
  by (simp add: eventsByDate_def indexEvent_def sampleParse_def sampleFormat_def
      standup_def hike_def broken_def lunch_def)

theorem eventsByDate_partition_witness:
  "distinct (map fst (eventsByDate sampleParse sampleFormat [standup, hike, broken, lunch])) \<and>
   mset (concat (map snd (eventsByDate sampleParse sampleFormat [standup, hike, broken, lunch])))
     = {#standup, hike, lunch#}"
  using eventsByDate_partition [OF refl, of sampleParse sampleFormat "[standup, hike, broken, lunch]"]
  by (simp add: sampleParse_def standup_def hike_def broken_def lunch_def)

section \<open>Properties of the creation form\<close>

lemma dayNumber_addDays: "validDate d \<Longrightarrow> dayNumber (addDays d n) = dayNumber d + n"
proof (cases "0 \<le> n")
  case True
  then show ?thesis
    using funpow_nextDay [of "nat n" d] by (simp add: addDays_def)
next
  case False
  assume "validDate d"
  with False show ?thesis
    using funpow_prevDay [of d "nat (- n)"] by (simp add: addDays_def)
qed

lemma getTime_newDate: "getTime (newDate t) = t"
proof -
  let ?epoch = "\<lparr>year = 1970, month = 0, dayOfMonth = 1, msOfDay = 0\<rparr>"
  have "validDate ?epoch"
    by (simp add: validDate_def daysInMonth_def msPerDay_def)
  moreover have "dayNumber ?epoch = 0"
    by (simp add: dayNumber_def dayFromYear_def daysBeforeMonth_0)
  ultimately have "dayNumber (addDays ?epoch (t div msPerDay)) = t div msPerDay"
    by (simp add: dayNumber_addDays)
  moreover have "0 \<le> t mod msPerDay"
    by (simp add: msPerDay_def)
  ultimately show ?thesis
    by (simp add: getTime_def newDate_def dayNumber_msOfDay_update)
qed

lemma validateForm_unfold:
  "validateForm parseISO now1 now2 form =
    ((\<lambda>k. if k = ''maxAttendees'' \<and> maxAttendees_input form \<noteq> [] \<and> le_zero (parseInt (maxAttendees_input form))
          then Some ''Max attendees must be a positive number.''
          else if k = ''location'' \<and> trim (location_input form) = [] then Some ''Location is required.''
          else if k = ''date'' then dateRejected parseISO now1 now2 form
          else if k = ''title'' \<and> trim (title_input form) = [] then Some ''Title is required.''
          else None),
     \<not> (trim (title_input form) = []) \<and> dateRejected parseISO now1 now2 form = None \<and>
     \<not> (trim (location_input form) = []) \<and>
     \<not> (maxAttendees_input form \<noteq> [] \<and> le_zero (parseInt (maxAttendees_input form))))"
  by (auto simp: validateForm_def Let_def setError_def dateRejected_def getTime_newDate isBefore_def
      fun_eq_iff split: option.splits)

text \<open>
  C5. For a date string that parses to a valid date, and two clock readings less than
  a minute apart: a date not more than 60 seconds before the current time gets no
  error on the date field, and a date more than 60 seconds before it is rejected with
  the message that it cannot be in the past.
\<close>

theorem validateForm_grace_window:
  assumes "date_input form \<noteq> []"
    and "parseISO (date_input form) = Some d"
    and "getTime now2 \<le> getTime now1 + 60000"
  shows "(getTime now2 - getTime d \<le> 60000 \<longrightarrow>
            fst (validateForm parseISO now1 now2 form) ''date'' = None) \<and>
         (60000 < getTime now2 - getTime d \<longrightarrow>
            fst (validateForm parseISO now1 now2 form) ''date'' = Some ''Date/time cannot be in the past.'' \<and>
            \<not> snd (validateForm parseISO now1 now2 form))"
  using assms by (simp add: validateForm_unfold dateRejected_def)

theorem validateForm_grace_window_witness:
  "fst (validateForm (\<lambda>s. Some (noon\<lparr>msOfDay := 43195000\<rparr>)) noon noon (syncForm [])) ''date'' = None \<and>
   fst (validateForm (\<lambda>s. Some (noon\<lparr>msOfDay := 42900000\<rparr>)) noon noon (syncForm [])) ''date''
     = Some ''Date/time cannot be in the past.''"
proof -
  let ?recent = "noon\<lparr>msOfDay := 43195000\<rparr>" and ?old = "noon\<lparr>msOfDay := 42900000\<rparr>"
  have f: "date_input (syncForm []) \<noteq> []"
    by (simp add: syncForm_def)
  have c: "getTime noon \<le> getTime noon + 60000"
    by simp
  have r: "getTime noon - getTime ?recent \<le> 60000" and o: "60000 < getTime noon - getTime ?old"
    by (simp_all add: getTime_def noon_def dayNumber_def)
  have "fst (validateForm (\<lambda>s. Some ?recent) noon noon (syncForm [])) ''date'' = None"
    using validateForm_grace_window [where parseISO = "\<lambda>s. Some ?recent" and d = ?recent, OF f refl c] r
    by blast
  moreover have "fst (validateForm (\<lambda>s. Some ?old) noon noon (syncForm [])) ''date''
      = Some ''Date/time cannot be in the past.''"
    using validateForm_grace_window [where parseISO = "\<lambda>s. Some ?old" and d = ?old, OF f refl c] o
    by blast
  ultimately show ?thesis
    by (rule conjI)
qed

lemma parseInt_samples:
  "parseInt ''.5'' = NaN" "parseInt ''abc'' = NaN" "parseInt ''12'' = Num 12"
  "parseInt '' -3x'' = Num (- 3)" "parseInt ''0'' = Num 0" "parseInt ''1.9'' = Num 1"
  by (simp_all add: parseInt_def isWhiteSpace_def isDigit_def digitValue_def)

text \<open>
  C4. A supplied max-attendee text that does not parse to an integer is not rejected:
  \<^verbatim>\<open>parseInt\<close> gives \<^verbatim>\<open>NaN\<close>, the comparison \<^verbatim>\<open>NaN <= 0\<close> is false, the form is
  valid with no error, and \<^verbatim>\<open>handleSubmit\<close> passes \<^verbatim>\<open>NaN\<close> on as \<^verbatim>\<open>maxAttendees\<close>.
\<close>

theorem validateForm_accepts_unparsed_maxAttendees:
  "validateForm sampleParse noon noon (syncForm ''.5'') = (Map.empty, True) \<and>
   snd (handleSubmit sampleParse noon noon (syncForm ''.5'')) =
     Some \<lparr>title = ''Sync'', date = ''2025-01-22T09:00'', description = [], location = ''X'',
       maxAttendees = Some NaN\<rparr>"
  by (simp add: handleSubmit_def validateForm_unfold dateRejected_def parseInt_samples syncForm_def
      sampleParse_def noon_def trim_def isWhiteSpace_def getTime_def dayNumber_def msPerDay_def fun_eq_iff)



section \<open>Properties of the invariants\<close>








end
